theory Spec2Isabelle
  imports Main
begin

section \<open>JavaScript values, strings and objects\<close>

text \<open>
  The core of \<open>src/App.jsx\<close>: \<open>processFiles\<close> (lines 42 to 150) and \<open>findDuplicates\<close>
  (lines 152 to 190), as functions of the tables that the parser delivers.

  The cells of a parsed table are the scalars that the table parser produces with dynamic
  typing switched on: strings, numbers, booleans and \<open>null\<close> for an empty cell.  Reading a
  property that an object does not have gives \<open>undefined\<close>.  Numbers are the integers of
  magnitude below \<open>10^21\<close>, whose string is their decimal numeral; fractions, \<open>NaN\<close> and
  date objects are left out.  A character is a code unit in the range U+0000 to U+00FF.
\<close>

datatype jsval = JUndefined | JNull | JBool bool | JNumber int | JString string

text \<open>Truthiness, as tested by \<open>&&\<close>, \<open>!\<close> and \<open>Array.prototype.some\<close>.\<close>

fun js_truthy :: "jsval \<Rightarrow> bool" where
  "js_truthy JUndefined = False"
| "js_truthy JNull = False"
| "js_truthy (JBool b) = b"
| "js_truthy (JNumber n) = (n \<noteq> 0)"
| "js_truthy (JString s) = (s \<noteq> [])"

fun nat_digits :: "nat \<Rightarrow> string" where
  "nat_digits n =
     (if n < 10 then [char_of (48 + n)]
      else nat_digits (n div 10) @ [char_of (48 + n mod 10)])"

declare nat_digits.simps [simp del]

text \<open>\<open>String(v)\<close>.\<close>

fun js_String :: "jsval \<Rightarrow> string" where
  "js_String JUndefined = ''undefined''"
| "js_String JNull = ''null''"
| "js_String (JBool b) = (if b then ''true'' else ''false'')"
| "js_String (JNumber n) = (if n < 0 then CHR ''-'' # nat_digits (nat (- n)) else nat_digits (nat n))"
| "js_String (JString s) = s"

text \<open>
  \<open>String.prototype.toLowerCase\<close>: the letters A to Z and the capital letters of the
  Latin-1 supplement (U+00C0 to U+00DE without the multiplication sign U+00D7) move up by 32.
\<close>

definition toLowerChar :: "char \<Rightarrow> char" where
  "toLowerChar c =
     (let n = (of_char c :: nat) in
      if (65 \<le> n \<and> n \<le> 90) \<or> (192 \<le> n \<and> n \<le> 214) \<or> (216 \<le> n \<and> n \<le> 222)
      then char_of (n + 32) else c)"

definition toLowerCase :: "string \<Rightarrow> string" where
  "toLowerCase s = map toLowerChar s"

text \<open>
  \<open>String.prototype.trim\<close> removes white space and line terminators from both ends: tab,
  line feed, vertical tab, form feed, carriage return, space and no-break space.
\<close>

definition isWhiteSpace :: "char \<Rightarrow> bool" where
  "isWhiteSpace c = ((of_char c :: nat) \<in> {9, 10, 11, 12, 13, 32, 160})"

definition trim :: "string \<Rightarrow> string" where
  "trim s = rev (dropWhile isWhiteSpace (rev (dropWhile isWhiteSpace s)))"

text \<open>
  An object is the list of its own properties in the order \<open>Object.keys\<close> enumerates them.
  Assigning to a property that exists keeps its place; a new property goes to the end.  The
  same list with the same assignment models a \<open>Map\<close>, which iterates in insertion order.
\<close>

type_synonym obj = "(string \<times> jsval) list"

primrec assign :: "('k \<times> 'v) list \<Rightarrow> 'k \<Rightarrow> 'v \<Rightarrow> ('k \<times> 'v) list" where
  "assign [] k v = [(k, v)]"
| "assign (p # ps) k v = (if fst p = k then (k, v) # ps else p # assign ps k v)"

definition obj_keys :: "obj \<Rightarrow> string list" where
  "obj_keys row = map fst row"

definition obj_get :: "obj \<Rightarrow> string \<Rightarrow> jsval" where
  "obj_get row k = (case map_of row k of None \<Rightarrow> JUndefined | Some v \<Rightarrow> v)"

text \<open>
  The result of \<open>Array.prototype.find\<close> over strings is a string or \<open>undefined\<close>; it is
  truthy when it is a non-empty string.
\<close>

definition key_truthy :: "string option \<Rightarrow> bool" where
  "key_truthy k = (case k of None \<Rightarrow> False | Some s \<Rightarrow> s \<noteq> [])"

section \<open>processFiles: filtering, extraction and the per-file summary\<close>

text \<open>
  What the parser hands to the \<open>complete\<close> callback for one file: the file's name, the
  rows (\<open>result.data\<close>, one object per data line, keyed by the header) and the header
  (\<open>result.meta.fields\<close>).  The warning that the callback logs for \<open>result.errors\<close>
  changes nothing and is left out.  \<open>file_result\<close> is the object pushed to
  \<open>fileResults\<close> (lines 110 to 118).
\<close>

record parsed_file =
  file_name :: string
  data :: "obj list"
  meta_fields :: "string list option"

record file_result =
  fileName :: string
  totalRowCount :: nat
  userRowCount :: nat
  hasTypeField :: bool
  availableFields :: "string list"
  missingFields :: "string list"
  columns :: "string list"

definition requiredFields :: "string list" where
  "requiredFields = [''Type'', ''Display Name'', ''Name'', ''Domain'']"

text \<open>\<open>Object.keys(result.data.length > 0 ? result.data[0] : {})\<close> (lines 64 and 105).\<close>

definition firstRowKeys :: "obj list \<Rightarrow> string list" where
  "firstRowKeys rows = (case rows of [] \<Rightarrow> [] | row # _ \<Rightarrow> obj_keys row)"

definition typeField :: "obj list \<Rightarrow> string option" where
  "typeField rows = List.find (\<lambda>key. toLowerCase key = ''type'') (firstRowKeys rows)"

text \<open>
  The predicate of \<open>.filter\<close> (lines 72 to 76): without a Type field every row is kept.
\<close>

definition keepRow :: "string option \<Rightarrow> obj \<Rightarrow> bool" where
  "keepRow tf row =
     (case tf of
        None \<Rightarrow> True
      | Some k \<Rightarrow>
          if \<not> key_truthy (Some k) then True
          else toLowerCase (js_String (obj_get row k)) = ''user'')"

text \<open>
  The body of \<open>requiredFields.forEach\<close> for one field (lines 81 to 92): the value stored
  under it.
\<close>

definition extractField :: "obj \<Rightarrow> string \<Rightarrow> jsval" where
  "extractField row field =
     (let actualFieldName =
            List.find (\<lambda>key. toLowerCase key = toLowerCase field) (obj_keys row)
      in case actualFieldName of
           None \<Rightarrow> JString []
         | Some k \<Rightarrow> if key_truthy (Some k) then obj_get row k else JString [])"

text \<open>
  The function of \<open>.map\<close> (lines 77 to 99): the extracted record of one row of file number
  \<open>i\<close>.
\<close>

definition extractRow :: "string \<Rightarrow> nat \<Rightarrow> obj \<Rightarrow> obj" where
  "extractRow fname i row =
     (let extractedData =
            fold (\<lambda>field ex. assign ex field (extractField row field)) requiredFields [];
          extractedData = assign extractedData ''__source_file'' (JString fname);
          extractedData = assign extractedData ''__file_index'' (JNumber (int i))
      in extractedData)"

definition filteredData :: "nat \<Rightarrow> parsed_file \<Rightarrow> obj list" where
  "filteredData i file =
     map (extractRow (file_name file) i) (filter (keepRow (typeField (data file))) (data file))"

definition availableFieldsOf :: "obj list \<Rightarrow> string list" where
  "availableFieldsOf rows =
     filter (\<lambda>field. list_ex (\<lambda>key. toLowerCase key = toLowerCase field) (firstRowKeys rows))
       requiredFields"

definition fileResult :: "nat \<Rightarrow> parsed_file \<Rightarrow> file_result" where
  "fileResult i file =
     \<lparr> fileName = file_name file,
       totalRowCount = length (data file),
       userRowCount = length (filteredData i file),
       hasTypeField = key_truthy (typeField (data file)),
       availableFields = availableFieldsOf (data file),
       missingFields =
         filter (\<lambda>field. \<not> List.member (availableFieldsOf (data file)) field) requiredFields,
       columns = (case meta_fields file of None \<Rightarrow> [] | Some fs \<Rightarrow> fs) \<rparr>"

text \<open>
  The loop over the files (lines 50 to 125): \<open>allUsers\<close> and \<open>fileResults\<close> are the two
  accumulators, \<open>i\<close> the loop counter.
\<close>

fun filesLoop :: "nat \<Rightarrow> parsed_file list \<Rightarrow> obj list \<Rightarrow> file_result list
    \<Rightarrow> obj list \<times> file_result list" where
  "filesLoop i [] allUsers fileResults = (allUsers, fileResults)"
| "filesLoop i (file # files) allUsers fileResults =
     filesLoop (Suc i) files (allUsers @ filteredData i file) (fileResults @ [fileResult i file])"

section \<open>findDuplicates\<close>

record group =
  strategy :: string
  duplicateValue :: string
  records :: "obj list"
  originalName :: jsval

definition nameField :: string where
  "nameField = ''Name''"

text \<open>
  \<open>nameMap\<close>, a \<open>Map\<close> from strings to arrays of records, with \<open>has\<close> and \<open>get\<close>.  The
  loop calls \<open>get\<close> only for a key that the map has; for any other key the model gives the
  empty array.
\<close>

type_synonym name_map = "(string \<times> obj list) list"

definition map_has :: "name_map \<Rightarrow> string \<Rightarrow> bool" where
  "map_has m k = (map_of m k \<noteq> None)"

definition map_get :: "name_map \<Rightarrow> string \<Rightarrow> obj list" where
  "map_get m k = (case map_of m k of None \<Rightarrow> [] | Some rs \<Rightarrow> rs)"

text \<open>
  The body of \<open>data.forEach((record, index) => ...)\<close> (lines 165 to 175), run over the rest
  of the list from position \<open>index\<close> on.  \<open>push\<close> grows the array held in the map under
  the key, and the pushed member is a copy of the record with \<open>__original_index\<close> set.
\<close>

fun nameLoop :: "nat \<Rightarrow> obj list \<Rightarrow> name_map \<Rightarrow> name_map" where
  "nameLoop index [] nameMap = nameMap"
| "nameLoop index (record # rest) nameMap =
     (let nameValue = obj_get record nameField in
      if js_truthy nameValue \<and> trim (js_String nameValue) \<noteq> [] then
        let normalizedName = trim (toLowerCase (js_String nameValue));
            nameMap1 = (if \<not> map_has nameMap normalizedName
                        then assign nameMap normalizedName [] else nameMap);
            nameMap2 = assign nameMap1 normalizedName
                         (map_get nameMap1 normalizedName
                            @ [assign record ''__original_index'' (JNumber (int index))])
        in nameLoop (Suc index) rest nameMap2
      else nameLoop (Suc index) rest nameMap)"

text \<open>
  The body of \<open>nameMap.forEach((records, nameValue) => ...)\<close> (lines 178 to 187).
  \<open>records[0]\<close> is read only when the array has more than one element.
\<close>

definition emitGroups :: "name_map \<Rightarrow> group list" where
  "emitGroups nameMap =
     map (\<lambda>(nameValue, recs).
            \<lparr> strategy = ''Name'',
              duplicateValue = nameValue,
              records = recs,
              originalName = (case recs of [] \<Rightarrow> JUndefined | r # _ \<Rightarrow> obj_get r nameField) \<rparr>)
       (filter (\<lambda>(nameValue, recs). length recs > 1) nameMap)"

definition findDuplicates :: "obj list \<Rightarrow> group list" where
  "findDuplicates dat =
     (if \<not> list_ex (\<lambda>record. js_truthy (obj_get record nameField)) dat then []
      else emitGroups (nameLoop 0 dat []))"

section \<open>The run summary\<close>

record run_results =
  totalRecords :: nat
  totalFiles :: nat
  fileDetails :: "file_result list"
  hasNameField :: bool
  duplicateCount :: nat
  duplicateGroups :: nat
  totalOriginalRecords :: nat

record run_output =
  combinedData :: "obj list"
  duplicates :: "group list"
  results :: run_results

text \<open>
  \<open>processFiles\<close> on the parsed files.  With no file it returns before anything is set,
  which is the value \<open>None\<close>; otherwise it sets the combined records, the duplicate groups
  and the summary (lines 127 to 143).  The two \<open>reduce\<close> calls are folds from 0.  The local
  constants \<open>hasNameField\<close> and \<open>duplicateGroups\<close> are called \<open>hasName\<close> and
  \<open>dupGroups\<close> here, since the summary has fields of these names.  A file that the parser
  rejects makes the run end without a summary; the model starts from files that were parsed.
\<close>

definition processFiles :: "parsed_file list \<Rightarrow> run_output option" where
  "processFiles files =
     (if length files = 0 then None
      else
        let (allUsers, fileResults) = filesLoop 0 files [] [];
            hasName = (length allUsers > 0
                       \<and> list_ex (\<lambda>record. js_truthy (obj_get record ''Name'')) allUsers);
            dupGroups = findDuplicates allUsers
        in Some
          \<lparr> combinedData = allUsers,
            duplicates = dupGroups,
            results =
              \<lparr> totalRecords = length allUsers,
                totalFiles = length files,
                fileDetails = fileResults,
                hasNameField = hasName,
                duplicateCount = fold (\<lambda>group sum. sum + length (records group)) dupGroups 0,
                duplicateGroups = length dupGroups,
                totalOriginalRecords =
                  fold (\<lambda>file sum. sum + totalRowCount file) fileResults 0 \<rparr> \<rparr>)"

section \<open>Notions used to state the properties\<close>

text \<open>
  The guard of the grouping loop, the key it computes, the member it pushes and the step it
  makes on the map, named so that the theorems can speak about them.  \<open>membersOf\<close> lists the
  members pushed under a key, \<open>indicesOf\<close> the positions of the records with that key in
  increasing order, and \<open>firstSeen\<close> keeps the first occurrence of every element of a list.
\<close>

definition usableName :: "obj \<Rightarrow> bool" where
  "usableName record =
     (js_truthy (obj_get record nameField) \<and> trim (js_String (obj_get record nameField)) \<noteq> [])"

definition normalizedName :: "obj \<Rightarrow> string" where
  "normalizedName record = trim (toLowerCase (js_String (obj_get record nameField)))"

definition withIndex :: "nat \<times> obj \<Rightarrow> obj" where
  "withIndex p = assign (snd p) ''__original_index'' (JNumber (int (fst p)))"

definition membersOf :: "nat \<Rightarrow> obj list \<Rightarrow> string \<Rightarrow> obj list" where
  "membersOf index dat k =
     map withIndex
       (filter (\<lambda>p. usableName (snd p) \<and> normalizedName (snd p) = k) (enumerate index dat))"

definition indicesOf :: "obj list \<Rightarrow> string \<Rightarrow> nat list" where
  "indicesOf dat k =
     filter (\<lambda>i. usableName (dat ! i) \<and> normalizedName (dat ! i) = k) [0..<length dat]"

definition positionsFrom :: "nat \<Rightarrow> obj list \<Rightarrow> string \<Rightarrow> nat list" where
  "positionsFrom n dat k =
     map fst (filter (\<lambda>p. usableName (snd p) \<and> normalizedName (snd p) = k) (enumerate n dat))"

primrec firstSeen :: "'a list \<Rightarrow> 'a list" where
  "firstSeen [] = []"
| "firstSeen (x # xs) = x # filter (\<lambda>y. y \<noteq> x) (firstSeen xs)"

definition pushRecord :: "name_map \<Rightarrow> string \<Rightarrow> obj \<Rightarrow> name_map" where
  "pushRecord nameMap k x =
     (let nameMap1 = (if \<not> map_has nameMap k then assign nameMap k [] else nameMap)
      in assign nameMap1 k (map_get nameMap1 k @ [x]))"

text \<open>
  An identity value that is empty (\<open>null\<close>, \<open>undefined\<close> or the empty string) or consists
  of white space only.
\<close>

definition blankName :: "jsval \<Rightarrow> bool" where
  "blankName v =
     (case v of JUndefined \<Rightarrow> True | JNull \<Rightarrow> True | JString s \<Rightarrow> trim s = [] | _ \<Rightarrow> False)"

section \<open>Example tables\<close>

text \<open>
  Two files that hold the same name in different spellings; a file without a Type column; a
  file without a Name column; a file whose Type column has several spellings and values; a
  file that has a header and no data line; a file with the columns Name and Type whose first
  line has a name only; and two lists of records whose names are spelled differently, are
  blank, or are the number 0.
\<close>

definition scenarioA :: "parsed_file list" where
  "scenarioA =
     [\<lparr> file_name = ''file1.csv'',
        data = [[(''Type'', JString ''User''), (''Name'', JString ''Alice''),
                 (''Domain'', JString ''a.com'')]],
        meta_fields = Some [''Type'', ''Name'', ''Domain''] \<rparr>,
      \<lparr> file_name = ''file2.csv'',
        data = [[(''Type'', JString ''User''), (''Name'', JString ''alice ''),
                 (''Domain'', JString ''b.com'')]],
        meta_fields = Some [''Type'', ''Name'', ''Domain''] \<rparr>]"

definition scenarioB :: parsed_file where
  "scenarioB =
     \<lparr> file_name = ''b.csv'',
       data = [[(''Name'', JString ''Ann''), (''Domain'', JString ''a.com'')],
               [(''Name'', JString ''Bob''), (''Domain'', JNull)],
               [(''Name'', JNumber 7), (''Domain'', JString ''c.com'')]],
       meta_fields = Some [''Name'', ''Domain''] \<rparr>"

definition scenarioC :: "parsed_file list" where
  "scenarioC =
     [\<lparr> file_name = ''c.csv'',
        data = [[(''Type'', JString ''User''), (''Domain'', JString ''a.com'')],
                [(''Type'', JString ''user''), (''Domain'', JString ''a.com'')]],
        meta_fields = Some [''Type'', ''Domain''] \<rparr>]"

definition scenarioD :: parsed_file where
  "scenarioD =
     \<lparr> file_name = ''d.csv'',
       data = [[(''TYPE'', JString ''Group''), (''Name'', JString ''Staff'')],
               [(''TYPE'', JString ''USER''), (''Name'', JString ''Ann'')],
               [(''TYPE'', JNumber 1), (''Name'', JString ''Bob'')],
               [(''TYPE'', JString ''user''), (''Name'', JString ''Cy'')]],
       meta_fields = Some [''TYPE'', ''Name''] \<rparr>"

definition headerOnly :: parsed_file where
  "headerOnly = \<lparr> file_name = ''empty.csv'', data = [], meta_fields = Some [''Type'', ''Name''] \<rparr>"

definition shortFirst :: parsed_file where
  "shortFirst =
     \<lparr> file_name = ''s.csv'',
       data = [[(''Name'', JString ''Ann'')],
               [(''Name'', JString ''Bob''), (''Type'', JString ''Group'')],
               [(''Name'', JString ''Cy''), (''Type'', JString ''User'')]],
       meta_fields = Some [''Name'', ''Type''] \<rparr>"

definition exampleNames :: "obj list" where
  "exampleNames =
     [[(''Name'', JString ''Alice'')],
      [(''Name'', JString ''Bob'')],
      [(''Name'', JNull)],
      [(''Name'', JString '' alice '')],
      [(''Name'', JNumber 0)],
      [(''Name'', JString ''BOB'')],
      [(''Name'', JString ''  '')],
      [(''Name'', JString ''Carl'')],
      [(''Name'', JNumber 0)],
      [(''Name'', JString ''bob'')]]"

definition zeroNames :: "obj list" where
  "zeroNames = [[(''Name'', JNumber 0)], [(''Name'', JNumber 0)], [(''Name'', JString ''Ann'')]]"

section \<open>Strings and property lists\<close>

lemma isWhiteSpace_toLowerChar: "isWhiteSpace (toLowerChar c) = isWhiteSpace c"
proof -
  define n where "n = (of_char c :: nat)"
  have lt: "n < 256" unfolding n_def by simp
  show ?thesis
  proof (cases "(65 \<le> n \<and> n \<le> 90) \<or> (192 \<le> n \<and> n \<le> 214) \<or> (216 \<le> n \<and> n \<le> 222)")
    case True
    then have m: "(n + 32) mod 256 = n + 32" by auto
    have "of_char (toLowerChar c) = n + 32"
      using True m by (simp add: toLowerChar_def Let_def n_def [symmetric])
    moreover have "n + 32 \<notin> {9, 10, 11, 12, 13, 32, 160}" using True by auto
    moreover have "n \<notin> {9, 10, 11, 12, 13, 32, 160}" using True by auto
    ultimately show ?thesis
      by (simp only: isWhiteSpace_def n_def [symmetric])
  next
    case False
    then have "toLowerChar c = c"
      unfolding toLowerChar_def Let_def n_def [symmetric] by (simp only: if_False)
    then show ?thesis by simp
  qed
qed

lemma trim_toLowerCase: "trim (toLowerCase s) = toLowerCase (trim s)"
proof -
  have comp: "isWhiteSpace \<circ> toLowerChar = isWhiteSpace"
    by (rule ext) (simp add: isWhiteSpace_toLowerChar)
  show ?thesis
    by (simp add: trim_def toLowerCase_def dropWhile_map rev_map comp)
qed

lemma toLowerCase_literals:
  "toLowerCase ''Type'' = ''type''"
  "toLowerCase ''Display Name'' = ''display name''"
  "toLowerCase ''Name'' = ''name''"
  "toLowerCase ''Domain'' = ''domain''"
  "toLowerCase ''__source_file'' = ''__source_file''"
  "toLowerCase ''__file_index'' = ''__file_index''"
  by code_simp+

lemma toLowerCase_Nil_iff: "toLowerCase k = [] \<longleftrightarrow> k = []"
  by (simp add: toLowerCase_def)

lemma trim_Nil_iff: "trim s = [] \<longleftrightarrow> (\<forall>c \<in> set s. isWhiteSpace c)"
proof
  assume t: "trim s = []"
  show "\<forall>c \<in> set s. isWhiteSpace c"
  proof (cases "dropWhile isWhiteSpace s")
    case Nil
    then show ?thesis by (simp add: dropWhile_eq_Nil_conv)
  next
    case (Cons c cs)
    then have "\<not> isWhiteSpace c" using hd_dropWhile [of isWhiteSpace s] by simp
    moreover from t Cons have "isWhiteSpace c"
      by (simp add: trim_def dropWhile_eq_Nil_conv)
    ultimately show ?thesis by simp
  qed
next
  assume "\<forall>c \<in> set s. isWhiteSpace c"
  then have d: "dropWhile isWhiteSpace s = []" by (simp add: dropWhile_eq_Nil_conv)
  show "trim s = []" by (simp only: trim_def d rev.simps dropWhile.simps)
qed

lemma digit_not_space: "(n::nat) < 10 \<Longrightarrow> \<not> isWhiteSpace (char_of (48 + n))"
proof -
  assume "n < 10"
  then have "(48 + n) mod 256 = 48 + n" by simp
  then have "of_char (char_of (48 + n)) = 48 + n" by simp
  with \<open>n < 10\<close> show ?thesis by (simp add: isWhiteSpace_def)
qed

lemma nat_digits_visible: "\<exists>c \<in> set (nat_digits n). \<not> isWhiteSpace c"
proof -
  have "n mod 10 < 10" by simp
  from digit_not_space [OF this] show ?thesis
    by (subst nat_digits.simps) (auto simp: digit_not_space)
qed

lemma trim_js_String_number: "trim (js_String (JNumber n)) \<noteq> []"
  using nat_digits_visible by (auto simp: trim_Nil_iff)

lemma trim_js_String_bool: "trim (js_String (JBool b)) \<noteq> []"
proof -
  have "trim ''true'' \<noteq> []" "trim ''false'' \<noteq> []" by code_simp+
  then show ?thesis by simp
qed

lemma map_of_assign: "map_of (assign ps k v) = (map_of ps)(k \<mapsto> v)"
  by (induction ps) (auto simp: fun_eq_iff)

lemma keys_assign:
  "map fst (assign ps k v) = (if k \<in> fst ` set ps then map fst ps else map fst ps @ [k])"
  by (induction ps) auto

lemma dom_assign: "fst ` set (assign ps k v) = insert k (fst ` set ps)"
  by (induction ps) auto

lemma obj_get_assign: "obj_get (assign row k v) k' = (if k' = k then v else obj_get row k')"
  by (simp add: obj_get_def map_of_assign)

lemma find_Some_holds: "List.find P xs = Some x \<Longrightarrow> P x \<and> x \<in> set xs"
  by (auto simp: find_Some_iff)



section \<open>Extraction of a row\<close>


lemma extractRow_unfold:
  "extractRow fname i row =
     [(''Type'', extractField row ''Type''),
      (''Display Name'', extractField row ''Display Name''),
      (''Name'', extractField row ''Name''),
      (''Domain'', extractField row ''Domain''),
      (''__source_file'', JString fname),
      (''__file_index'', JNumber (int i))]"
  by (simp add: extractRow_def requiredFields_def)



lemma find_extracted_key:
  "List.find (\<lambda>key. toLowerCase key = toLowerCase ''Type'')
     [''Type'', ''Display Name'', ''Name'', ''Domain'', ''__source_file'', ''__file_index'']
   = Some ''Type''"
  "List.find (\<lambda>key. toLowerCase key = toLowerCase ''Display Name'')
     [''Type'', ''Display Name'', ''Name'', ''Domain'', ''__source_file'', ''__file_index'']
   = Some ''Display Name''"
  "List.find (\<lambda>key. toLowerCase key = toLowerCase ''Name'')
     [''Type'', ''Display Name'', ''Name'', ''Domain'', ''__source_file'', ''__file_index'']
   = Some ''Name''"
  "List.find (\<lambda>key. toLowerCase key = toLowerCase ''Domain'')
     [''Type'', ''Display Name'', ''Name'', ''Domain'', ''__source_file'', ''__file_index'']
   = Some ''Domain''"
  by (simp_all add: toLowerCase_literals)

lemma obj_get_extractRow:
  "obj_get (extractRow fname i row) ''Type'' = extractField row ''Type''"
  "obj_get (extractRow fname i row) ''Display Name'' = extractField row ''Display Name''"
  "obj_get (extractRow fname i row) ''Name'' = extractField row ''Name''"
  "obj_get (extractRow fname i row) ''Domain'' = extractField row ''Domain''"
  by (simp_all add: extractRow_unfold obj_get_def)

lemma obj_keys_extractRow:
  "obj_keys (extractRow fname i row) =
     [''Type'', ''Display Name'', ''Name'', ''Domain'', ''__source_file'', ''__file_index'']"
  by (simp add: extractRow_unfold obj_keys_def)

lemma extractField_again:
  "extractField (extractRow fname i row) ''Type'' = extractField row ''Type''"
  "extractField (extractRow fname i row) ''Display Name'' = extractField row ''Display Name''"
  "extractField (extractRow fname i row) ''Name'' = extractField row ''Name''"
  "extractField (extractRow fname i row) ''Domain'' = extractField row ''Domain''"
  by (simp_all only: extractField_def [of "extractRow fname i row"] obj_keys_extractRow
      find_extracted_key Let_def option.case key_truthy_def obj_get_extractRow
      list.distinct if_True not_False_eq_True)

text \<open>
  C9.  Extracting an extracted record again gives the same record, and whatever file name
  and index the second extraction uses, it gives the same value for every target field.
\<close>

theorem extractRow_idempotent:
  "extractRow fname i (extractRow fname i row) = extractRow fname i row
   \<and> (\<forall>field \<in> set requiredFields.
         obj_get (extractRow fname2 i2 (extractRow fname i row)) field =
         obj_get (extractRow fname i row) field)"
proof -
  have 1: "extractRow fname i (extractRow fname i row) = extractRow fname i row"
    by (subst (1 3) extractRow_unfold) (simp only: extractField_again)
  have 2: "\<forall>field \<in> set requiredFields.
         obj_get (extractRow fname2 i2 (extractRow fname i row)) field =
         obj_get (extractRow fname i row) field"
    by (simp add: requiredFields_def obj_get_extractRow extractField_again)
  from 1 2 show ?thesis by simp
qed

text \<open>A row with a lowercase Name column, extracted twice.\<close>

theorem extractRow_idempotent_witness:
  "extractRow ''a.csv'' 0 (extractRow ''a.csv'' 0 [(''name'', JString ''bob''), (''x'', JNull)])
     = extractRow ''a.csv'' 0 [(''name'', JString ''bob''), (''x'', JNull)]
   \<and> obj_get (extractRow ''a.csv'' 0 [(''name'', JString ''bob''), (''x'', JNull)]) ''Name''
     = JString ''bob''
   \<and> obj_get (extractRow ''b.csv'' 1
        (extractRow ''a.csv'' 0 [(''name'', JString ''bob''), (''x'', JNull)])) ''Name''
     = JString ''bob''"
proof -
  have v: "obj_get (extractRow ''a.csv'' 0 [(''name'', JString ''bob''), (''x'', JNull)]) ''Name''
     = JString ''bob''"
    by code_simp
  from extractRow_idempotent [of "''a.csv''" 0 "[(''name'', JString ''bob''), (''x'', JNull)]"
        "''b.csv''" 1]
  show ?thesis by (simp add: requiredFields_def v)
qed

section \<open>The Type filter and the summary of a file\<close>

lemma typeField_SomeD:
  "typeField rows = Some k \<Longrightarrow>
     toLowerCase k = ''type'' \<and> k \<in> set (firstRowKeys rows) \<and> key_truthy (Some k)"
proof -
  assume "typeField rows = Some k"
  then have f: "List.find (\<lambda>key. toLowerCase key = ''type'') (firstRowKeys rows) = Some k"
    by (simp add: typeField_def)
  from find_Some_holds [OF f] have k: "toLowerCase k = ''type''" "k \<in> set (firstRowKeys rows)"
    by simp_all
  from k(1) have "toLowerCase k \<noteq> []" by simp
  then have "k \<noteq> []" by (simp add: toLowerCase_Nil_iff)
  with k show ?thesis by (simp add: key_truthy_def)
qed

lemma find_first_match:
  "\<forall>x \<in> set pre. \<not> P x \<Longrightarrow> P k \<Longrightarrow> List.find P (pre @ k # post) = Some k"
  by (induction pre) simp_all

text \<open>
  When the first row of a table has a property whose lowercased name is \<open>type\<close>, and \<open>k\<close>
  is the first such property, the rows that are kept are exactly the rows whose value under
  \<open>k\<close>, turned into a string and lowercased, is \<open>user\<close>, in their original order; the
  extracted records are the extractions of these rows, and the summary counts them and reports
  that the table has a Type field.
\<close>

lemma type_filter_first_row:
  assumes "data file = row # rest"
    and "obj_keys row = pre @ k # post"
    and "\<forall>key \<in> set pre. toLowerCase key \<noteq> ''type''"
    and "toLowerCase k = ''type''"
  shows "typeField (data file) = Some k
    \<and> hasTypeField (fileResult i file)
    \<and> filter (keepRow (typeField (data file))) (data file) =
        filter (\<lambda>r. toLowerCase (js_String (obj_get r k)) = ''user'') (data file)
    \<and> filteredData i file =
        map (extractRow (file_name file) i)
          (filter (\<lambda>r. toLowerCase (js_String (obj_get r k)) = ''user'') (data file))
    \<and> userRowCount (fileResult i file) =
        length (filter (\<lambda>r. toLowerCase (js_String (obj_get r k)) = ''user'') (data file))"
proof -
  have tf: "typeField (data file) = Some k"
    using find_first_match [of pre "\<lambda>key. toLowerCase key = ''type''" k post] assms
    by (simp add: typeField_def firstRowKeys_def)
  from typeField_SomeD [OF tf] have k: "key_truthy (Some k)" by simp
  have keep: "keepRow (Some k) = (\<lambda>r. toLowerCase (js_String (obj_get r k)) = ''user'')"
    using k by (simp add: keepRow_def fun_eq_iff)
  show ?thesis
    using k by (simp add: tf keep filteredData_def fileResult_def)
qed

text \<open>
  A table with the column TYPE and the values Group, USER, 1 and user: the second and the
  fourth row are kept.
\<close>

lemma type_filter_first_row_example:
  "filter (keepRow (typeField (data scenarioD))) (data scenarioD) =
       [[(''TYPE'', JString ''USER''), (''Name'', JString ''Ann'')],
        [(''TYPE'', JString ''user''), (''Name'', JString ''Cy'')]]
   \<and> hasTypeField (fileResult 0 scenarioD)
   \<and> userRowCount (fileResult 0 scenarioD) = 2"
proof -
  have d: "data scenarioD =
      [(''TYPE'', JString ''Group''), (''Name'', JString ''Staff'')] # tl (data scenarioD)"
    by (simp add: scenarioD_def)
  have ks: "obj_keys [(''TYPE'', JString ''Group''), (''Name'', JString ''Staff'')]
      = [] @ ''TYPE'' # [''Name'']"
    by (simp add: obj_keys_def)
  have l: "toLowerCase ''TYPE'' = ''type''" by code_simp
  have f: "filter (\<lambda>r. toLowerCase (js_String (obj_get r ''TYPE'')) = ''user'')
        (data scenarioD) =
       [[(''TYPE'', JString ''USER''), (''Name'', JString ''Ann'')],
        [(''TYPE'', JString ''user''), (''Name'', JString ''Cy'')]]"
    by code_simp
  note inst = type_filter_first_row [OF d ks _ l, of 0, unfolded f]
  have 1: "filter (keepRow (typeField (data scenarioD))) (data scenarioD) =
       [[(''TYPE'', JString ''USER''), (''Name'', JString ''Ann'')],
        [(''TYPE'', JString ''user''), (''Name'', JString ''Cy'')]]"
    by (rule inst [THEN conjunct2, THEN conjunct2, THEN conjunct1]) simp
  have 2: "hasTypeField (fileResult 0 scenarioD)"
    by (rule inst [THEN conjunct2, THEN conjunct1]) simp
  have "userRowCount (fileResult 0 scenarioD) =
      length [[(''TYPE'', JString ''USER''), (''Name'', JString ''Ann'')],
        [(''TYPE'', JString ''user''), (''Name'', JString ''Cy'')]]"
    by (rule inst [THEN conjunct2, THEN conjunct2, THEN conjunct2, THEN conjunct2]) simp
  then have 3: "userRowCount (fileResult 0 scenarioD) = 2" by simp
  from 1 2 3 show ?thesis by (intro conjI)
qed

text \<open>
  C3.  The property that in every table with a Type column exactly the rows with the value
  \<open>user\<close> are kept fails when the first line of the table has fewer cells than the header.
  The table has the columns Name and Type and the lines Ann; Bob, Group; Cy, User.  Only the
  third row has \<open>user\<close> under Type.  The Type field is looked for among the properties of
  the first row, which has none, so no Type field is found, all three rows are kept, the row
  of type Group among them, and the summary reports that the table has no Type field.
\<close>

theorem short_first_line_keeps_group:
  "columns (fileResult 0 shortFirst) = [''Name'', ''Type'']
   \<and> data shortFirst ! 1 = [(''Name'', JString ''Bob''), (''Type'', JString ''Group'')]
   \<and> filter (\<lambda>r. toLowerCase (js_String (obj_get r ''Type'')) = ''user'') (data shortFirst)
       = [[(''Name'', JString ''Cy''), (''Type'', JString ''User'')]]
   \<and> typeField (data shortFirst) = None
   \<and> hasTypeField (fileResult 0 shortFirst) = False
   \<and> filter (keepRow (typeField (data shortFirst))) (data shortFirst) = data shortFirst
   \<and> userRowCount (fileResult 0 shortFirst) = 3
   \<and> map (\<lambda>r. obj_get r ''Type'') (filteredData 0 shortFirst)
       = [JString [], JString ''Group'', JString ''User'']"
  by code_simp

lemma typeField_None:
  assumes "\<forall>row \<in> set rows. \<forall>key \<in> set (obj_keys row). toLowerCase key \<noteq> ''type''"
  shows "typeField rows = None"
proof (cases rows)
  case Nil
  then show ?thesis by (simp add: typeField_def firstRowKeys_def)
next
  case (Cons row rest)
  with assms have "\<forall>key \<in> set (obj_keys row). toLowerCase key \<noteq> ''type''" by simp
  with Cons show ?thesis
    by (simp add: typeField_def firstRowKeys_def find_None_iff)
qed

lemma header_without_type:
  assumes "\<forall>row \<in> set rows. set (obj_keys row) \<subseteq> insert ''__parsed_extra'' (set header)"
    and "\<forall>c \<in> set header. toLowerCase c \<noteq> ''type''"
  shows "\<forall>row \<in> set rows. \<forall>key \<in> set (obj_keys row). toLowerCase key \<noteq> ''type''"
proof -
  have "toLowerCase ''__parsed_extra'' \<noteq> ''type''" by code_simp
  with assms show ?thesis by blast
qed

text \<open>
  C4.  When no row of a table has a property whose lowercased name is \<open>type\<close>, every row is
  kept, the count of kept rows equals the count of all rows, and the summary reports that the
  table has no Type field.  By \<open>header_without_type\<close> this is the case for every table
  whose header has no such name, since the parser names the properties of a row after the
  header.
\<close>

theorem no_type_column_keeps_all:
  assumes "\<forall>row \<in> set (data file). \<forall>key \<in> set (obj_keys row). toLowerCase key \<noteq> ''type''"
  shows "filter (keepRow (typeField (data file))) (data file) = data file
    \<and> filteredData i file = map (extractRow (file_name file) i) (data file)
    \<and> userRowCount (fileResult i file) = totalRowCount (fileResult i file)
    \<and> totalRowCount (fileResult i file) = length (data file)
    \<and> hasTypeField (fileResult i file) = False"
  by (simp add: typeField_None [OF assms] keepRow_def filteredData_def fileResult_def
      key_truthy_def)

text \<open>A table with the columns Name and Domain and three rows: all three are kept.\<close>

theorem no_type_column_keeps_all_witness:
  "list_all (\<lambda>row. list_all (\<lambda>key. toLowerCase key \<noteq> ''type'') (obj_keys row)) (data scenarioB)
   \<and> filter (keepRow (typeField (data scenarioB))) (data scenarioB) = data scenarioB
   \<and> userRowCount (fileResult 0 scenarioB) = 3
   \<and> totalRowCount (fileResult 0 scenarioB) = 3
   \<and> hasTypeField (fileResult 0 scenarioB) = False
   \<and> missingFields (fileResult 0 scenarioB) = [''Type'', ''Display Name'']"
proof -
  have l: "toLowerCase ''Name'' \<noteq> ''type''" "toLowerCase ''Domain'' \<noteq> ''type''"
    by (simp_all add: toLowerCase_literals)
  have h: "\<forall>row \<in> set (data scenarioB). \<forall>key \<in> set (obj_keys row). toLowerCase key \<noteq> ''type''"
    by (simp add: scenarioB_def obj_keys_def l)
  have m: "missingFields (fileResult 0 scenarioB) = [''Type'', ''Display Name'']"
    by code_simp
  have n: "length (data scenarioB) = 3" by (simp add: scenarioB_def)
  from no_type_column_keeps_all [OF h, of 0] h m n show ?thesis
    by (simp add: list_all_iff)
qed

text \<open>
  C6, as amended.  The missing fields of a table's summary are exactly the complement of the
  found fields in the target fields.  For a table with no data row no field is found.  For a
  table whose first row has the table's columns as its property names (an extra
  \<open>__parsed_extra\<close> property apart), the found fields are exactly the target fields that
  match a column without regard to case; the values in the rows play no part.  Nothing is
  stated here about a table whose first row lacks a column.
\<close>

theorem available_fields_of_table:
  "missingFields (fileResult i file) =
     filter (\<lambda>field. field \<notin> set (availableFields (fileResult i file))) requiredFields
   \<and> set (availableFields (fileResult i file)) \<union> set (missingFields (fileResult i file))
       = set requiredFields
   \<and> set (availableFields (fileResult i file)) \<inter> set (missingFields (fileResult i file)) = {}
   \<and> (data file = [] \<longrightarrow> availableFields (fileResult i file) = [])
   \<and> (\<forall>row rest.
         data file = row # rest
         \<and> set (obj_keys row) - {''__parsed_extra''} = set (columns (fileResult i file))
         \<longrightarrow> availableFields (fileResult i file) =
          filter (\<lambda>field. \<exists>c \<in> set (columns (fileResult i file)).
                     toLowerCase c = toLowerCase field) requiredFields)"
proof -
  have a: "availableFields (fileResult i file) =
     filter (\<lambda>field. \<exists>key \<in> set (firstRowKeys (data file)). toLowerCase key = toLowerCase field)
       requiredFields"
    by (simp add: fileResult_def availableFieldsOf_def list_ex_iff)
  have m: "missingFields (fileResult i file) =
     filter (\<lambda>field. field \<notin> set (availableFields (fileResult i file))) requiredFields"
    by (simp add: fileResult_def)
  have u: "set (availableFields (fileResult i file)) \<union> set (missingFields (fileResult i file))
       = set requiredFields"
    unfolding m unfolding a by auto
  have d: "set (availableFields (fileResult i file)) \<inter> set (missingFields (fileResult i file)) = {}"
    unfolding m by auto
  have e: "availableFields (fileResult i file) = []" if "data file = []"
    unfolding a using that by (simp add: firstRowKeys_def)
  have pe: "\<And>field. field \<in> set requiredFields \<Longrightarrow>
      toLowerCase ''__parsed_extra'' \<noteq> toLowerCase field"
  proof -
    fix field assume "field \<in> set requiredFields"
    moreover have "toLowerCase ''__parsed_extra'' = ''__parsed_extra''" by code_simp
    ultimately show "toLowerCase ''__parsed_extra'' \<noteq> toLowerCase field"
      by (auto simp: requiredFields_def toLowerCase_literals)
  qed
  have c: "availableFields (fileResult i file) =
          filter (\<lambda>field. \<exists>c \<in> set (columns (fileResult i file)).
                     toLowerCase c = toLowerCase field) requiredFields"
    if r: "data file = row # rest"
      and eq: "set (obj_keys row) - {''__parsed_extra''} = set (columns (fileResult i file))"
    for row rest
  proof -
    from r have k: "firstRowKeys (data file) = obj_keys row" by (simp add: firstRowKeys_def)
    show ?thesis
      unfolding a k eq [symmetric]
      by (rule filter_cong [OF refl]) (use pe in blast)
  qed
  from m u d e c show ?thesis by blast
qed

text \<open>
  The file with a header and no data line has no found field.  The table whose first row has
  the properties Name and Domain, which are its columns, has these two fields found, and Type
  and Display Name missing.
\<close>

theorem available_fields_of_table_witness:
  "data headerOnly = []
   \<and> availableFields (fileResult 0 headerOnly) = []
   \<and> data scenarioB = hd (data scenarioB) # tl (data scenarioB)
   \<and> set (obj_keys (hd (data scenarioB))) - {''__parsed_extra''}
       = set (columns (fileResult 0 scenarioB))
   \<and> availableFields (fileResult 0 scenarioB) =
       filter (\<lambda>field. \<exists>c \<in> set (columns (fileResult 0 scenarioB)).
                  toLowerCase c = toLowerCase field) requiredFields
   \<and> availableFields (fileResult 0 scenarioB) = [''Name'', ''Domain'']
   \<and> missingFields (fileResult 0 scenarioB) = [''Type'', ''Display Name'']"
proof -
  have h: "data headerOnly = []" by (simp add: headerOnly_def)
  from available_fields_of_table [of 0 headerOnly] h
  have h0: "availableFields (fileResult 0 headerOnly) = []" by blast
  have r: "data scenarioB = hd (data scenarioB) # tl (data scenarioB)"
    by (simp add: scenarioB_def)
  have k: "obj_keys (hd (data scenarioB)) = [''Name'', ''Domain'']"
    by code_simp
  have c: "columns (fileResult 0 scenarioB) = [''Name'', ''Domain'']"
    by code_simp
  have e: "set (obj_keys (hd (data scenarioB))) - {''__parsed_extra''}
       = set (columns (fileResult 0 scenarioB))"
    unfolding k c by simp
  have a: "availableFields (fileResult 0 scenarioB) = [''Name'', ''Domain'']"
    by code_simp
  have m: "missingFields (fileResult 0 scenarioB) = [''Type'', ''Display Name'']"
    by code_simp
  from available_fields_of_table [of 0 scenarioB] r e
  have f: "availableFields (fileResult 0 scenarioB) =
       filter (\<lambda>field. \<exists>c \<in> set (columns (fileResult 0 scenarioB)).
                  toLowerCase c = toLowerCase field) requiredFields"
    by blast
  from h h0 r e f a m show ?thesis by (intro conjI)
qed

text \<open>
  C6, as stated, fails for a file with a header and no data line: two target fields match a
  column of the file, and the summary finds none and reports all four missing.
\<close>

theorem available_fields_header_counterexample:
  "columns (fileResult 0 headerOnly) = [''Type'', ''Name'']
   \<and> filter (\<lambda>field. list_ex (\<lambda>c. toLowerCase c = toLowerCase field)
                (columns (fileResult 0 headerOnly))) requiredFields = [''Type'', ''Name'']
   \<and> availableFields (fileResult 0 headerOnly) = []
   \<and> missingFields (fileResult 0 headerOnly) = [''Type'', ''Display Name'', ''Name'', ''Domain'']"
  by code_simp

section \<open>The run and its summary\<close>

lemma fold_add_sum: "fold (\<lambda>x (s::nat). s + f x) xs a = a + sum_list (map f xs)"
  by (induction xs arbitrary: a) simp_all

lemma filesLoop_eq:
  "filesLoop i files allUsers fileResults =
     (allUsers @ concat (map (\<lambda>(j, file). filteredData j file) (enumerate i files)),
      fileResults @ map (\<lambda>(j, file). fileResult j file) (enumerate i files))"
  by (induction files arbitrary: i allUsers fileResults) simp_all

lemma nonempty_and_some: "(length xs > 0 \<and> list_ex P xs) = list_ex P xs"
  by (cases xs) simp_all

lemma processFiles_Some:
  assumes "processFiles files = Some out"
  shows "files \<noteq> []"
    and "combinedData out = concat (map (\<lambda>(j, file). filteredData j file) (enumerate 0 files))"
    and "fileDetails (results out) = map (\<lambda>(j, file). fileResult j file) (enumerate 0 files)"
    and "duplicates out = findDuplicates (combinedData out)"
    and "hasNameField (results out) =
           list_ex (\<lambda>record. js_truthy (obj_get record ''Name'')) (combinedData out)"
    and "duplicateCount (results out) =
           fold (\<lambda>group sum. sum + length (records group)) (duplicates out) 0"
    and "duplicateGroups (results out) = length (duplicates out)"
    and "totalRecords (results out) = length (combinedData out)"
proof -
  from assms show ne: "files \<noteq> []"
    by (auto simp: processFiles_def)
  from assms ne have out: "out =
    (let allUsers = concat (map (\<lambda>(j, file). filteredData j file) (enumerate 0 files));
         fileResults = map (\<lambda>(j, file). fileResult j file) (enumerate 0 files);
         dupGroups = findDuplicates allUsers
     in \<lparr> combinedData = allUsers,
          duplicates = dupGroups,
          results =
            \<lparr> totalRecords = length allUsers,
              totalFiles = length files,
              fileDetails = fileResults,
              hasNameField = list_ex (\<lambda>record. js_truthy (obj_get record ''Name'')) allUsers,
              duplicateCount = fold (\<lambda>group sum. sum + length (records group)) dupGroups 0,
              duplicateGroups = length dupGroups,
              totalOriginalRecords =
                fold (\<lambda>file sum. sum + totalRowCount file) fileResults 0 \<rparr> \<rparr>)"
    by (simp add: processFiles_def filesLoop_eq Let_def nonempty_and_some
        del: length_greater_0_conv)
  show "combinedData out = concat (map (\<lambda>(j, file). filteredData j file) (enumerate 0 files))"
    and "fileDetails (results out) = map (\<lambda>(j, file). fileResult j file) (enumerate 0 files)"
    and "duplicates out = findDuplicates (combinedData out)"
    and "hasNameField (results out) =
           list_ex (\<lambda>record. js_truthy (obj_get record ''Name'')) (combinedData out)"
    and "duplicateCount (results out) =
           fold (\<lambda>group sum. sum + length (records group)) (duplicates out) 0"
    and "duplicateGroups (results out) = length (duplicates out)"
    and "totalRecords (results out) = length (combinedData out)"
    by (simp_all add: out Let_def)
qed

text \<open>
  C8.  In the summary of a run, \<open>duplicateCount\<close> is the sum of the numbers of members of
  the duplicate groups of the run and \<open>duplicateGroups\<close> is the number of these groups,
  which are the groups that \<open>findDuplicates\<close> computes from the combined records.
\<close>

theorem summary_duplicate_counts:
  assumes "processFiles files = Some out"
  shows "duplicateCount (results out) = sum_list (map (\<lambda>g. length (records g)) (duplicates out))
    \<and> duplicateGroups (results out) = length (duplicates out)
    \<and> duplicates out = findDuplicates (combinedData out)"
  using processFiles_Some(4,6,7) [OF assms] by (simp add: fold_add_sum)

text \<open>The two files with Alice and alice: one group of two members.\<close>

theorem summary_duplicate_counts_witness:
  "processFiles scenarioA = Some (the (processFiles scenarioA))
   \<and> duplicateCount (results (the (processFiles scenarioA))) = 2
   \<and> duplicateGroups (results (the (processFiles scenarioA))) = 1
   \<and> map (\<lambda>g. length (records g)) (duplicates (the (processFiles scenarioA))) = [2]"
proof -
  have "processFiles scenarioA \<noteq> None" by code_simp
  then have s: "processFiles scenarioA = Some (the (processFiles scenarioA))" by simp
  have m: "map (\<lambda>g. length (records g)) (duplicates (the (processFiles scenarioA))) = [2]"
    by code_simp
  then have "length (duplicates (the (processFiles scenarioA))) = 1"
    by (metis length_Cons length_map list.size(3) One_nat_def)
  with summary_duplicate_counts [OF s] s m show ?thesis
    by simp
qed

lemma findDuplicates_no_name:
  "\<forall>record \<in> set dat. \<not> js_truthy (obj_get record ''Name'') \<Longrightarrow> findDuplicates dat = []"
  by (simp add: findDuplicates_def nameField_def list_ex_iff)

text \<open>
  C7.  When no combined record of a run has a truthy value under Name (in particular when
  every such value is empty: \<open>null\<close>, \<open>undefined\<close> or the empty string),
  \<open>findDuplicates\<close> returns the empty list of groups, without an error, and the summary has
  \<open>hasNameField = false\<close>, no duplicate group and no duplicate record.
\<close>

theorem no_identity_value_no_detection:
  assumes "processFiles files = Some out"
    and "\<forall>record \<in> set (combinedData out). \<not> js_truthy (obj_get record ''Name'')"
  shows "findDuplicates (combinedData out) = []
    \<and> duplicates out = []
    \<and> hasNameField (results out) = False
    \<and> duplicateGroups (results out) = 0
    \<and> duplicateCount (results out) = 0"
  using processFiles_Some(4,5,6,7) [OF assms(1)] findDuplicates_no_name [OF assms(2)] assms(2)
  by (simp add: list_ex_iff)

text \<open>
  A file without a Name column: both rows are extracted with the empty string as Name, no
  group is reported and the flag is false.
\<close>

theorem no_identity_value_no_detection_witness:
  "processFiles scenarioC = Some (the (processFiles scenarioC))
   \<and> list_all (\<lambda>record. \<not> js_truthy (obj_get record ''Name''))
        (combinedData (the (processFiles scenarioC)))
   \<and> length (combinedData (the (processFiles scenarioC))) = 2
   \<and> duplicates (the (processFiles scenarioC)) = []
   \<and> hasNameField (results (the (processFiles scenarioC))) = False
   \<and> duplicateGroups (results (the (processFiles scenarioC))) = 0"
proof -
  have "processFiles scenarioC \<noteq> None" by code_simp
  then have s: "processFiles scenarioC = Some (the (processFiles scenarioC))" by simp
  have a: "list_all (\<lambda>record. \<not> js_truthy (obj_get record ''Name''))
        (combinedData (the (processFiles scenarioC)))"
    by code_simp
  then have h: "\<forall>record \<in> set (combinedData (the (processFiles scenarioC))).
      \<not> js_truthy (obj_get record ''Name'')"
    by (simp add: list_all_iff)
  have n: "length (combinedData (the (processFiles scenarioC))) = 2"
    by code_simp
  from no_identity_value_no_detection [OF s h] s a n show ?thesis
    by simp
qed

section \<open>The grouping loop\<close>

text \<open>
  The map that the loop builds holds, under every key, the members with that key in the order
  of the records, and its keys are in the order in which they were first seen.
\<close>

lemma nameLoop_Cons:
  "nameLoop index (record # rest) nameMap =
     nameLoop (Suc index) rest
       (if usableName record
        then pushRecord nameMap (normalizedName record) (withIndex (index, record))
        else nameMap)"
  by (simp add: usableName_def normalizedName_def withIndex_def pushRecord_def Let_def)

lemma map_has_iff: "map_has m k \<longleftrightarrow> k \<in> fst ` set m"
  by (simp add: map_has_def map_of_eq_None_iff)

lemma map_get_Nil: "map_get [] k = []"
  by (simp add: map_get_def)

lemma keys_pushRecord:
  "map fst (pushRecord m k x) = (if k \<in> fst ` set m then map fst m else map fst m @ [k])"
  by (auto simp: pushRecord_def Let_def keys_assign map_has_iff dom_assign)

lemma map_get_pushRecord:
  "map_get (pushRecord m k x) k' = (if k' = k then map_get m k @ [x] else map_get m k')"
  by (auto simp: pushRecord_def Let_def map_get_def map_of_assign map_has_def)

lemma membersOf_Nil: "membersOf index [] k = []"
  by (simp add: membersOf_def)

lemma membersOf_Cons:
  "membersOf index (record # rest) k =
     (if usableName record \<and> normalizedName record = k then [withIndex (index, record)] else [])
     @ membersOf (Suc index) rest k"
  by (simp add: membersOf_def)

lemma map_get_nameLoop:
  "map_get (nameLoop index dat m) k = map_get m k @ membersOf index dat k"
proof (induction dat arbitrary: index m)
  case Nil
  show ?case by (simp add: membersOf_Nil)
next
  case (Cons r rest)
  show ?case
    unfolding nameLoop_Cons Cons.IH membersOf_Cons
    by (simp add: map_get_pushRecord)
qed

lemma keys_nameLoop:
  "map fst (nameLoop index dat m) =
     map fst m @ filter (\<lambda>k. k \<notin> fst ` set m)
                   (firstSeen (map normalizedName (filter usableName dat)))"
proof (induction dat arbitrary: index m)
  case Nil
  show ?case by simp
next
  case (Cons r rest)
  show ?case
  proof (cases "usableName r")
    case False
    then show ?thesis unfolding nameLoop_Cons Cons.IH by simp
  next
    case True
    let ?k = "normalizedName r"
    let ?m = "pushRecord m ?k (withIndex (index, r))"
    have img: "fst ` set ?m = insert ?k (fst ` set m)"
      by (auto simp: pushRecord_def Let_def dom_assign)
    show ?thesis
    proof (cases "?k \<in> fst ` set m")
      case in_m: True
      then have "fst ` set ?m = fst ` set m" using img by auto
      moreover have "map fst ?m = map fst m" using in_m by (simp add: keys_pushRecord)
      moreover have "filter (\<lambda>k. k \<notin> fst ` set m) (filter (\<lambda>y. y \<noteq> ?k) xs)
          = filter (\<lambda>k. k \<notin> fst ` set m) xs" for xs
        using in_m by (auto intro: filter_cong)
      ultimately show ?thesis
        unfolding nameLoop_Cons Cons.IH using True in_m by simp
    next
      case not_m: False
      have "map fst ?m = map fst m @ [?k]" using not_m by (simp add: keys_pushRecord)
      moreover have "filter (\<lambda>k. k \<notin> insert ?k (fst ` set m)) xs
          = filter (\<lambda>k. k \<notin> fst ` set m) (filter (\<lambda>y. y \<noteq> ?k) xs)" for xs
        by (auto intro: filter_cong)
      ultimately show ?thesis
        unfolding nameLoop_Cons Cons.IH using True not_m by (simp add: img)
    qed
  qed
qed

lemma set_firstSeen: "set (firstSeen xs) = set xs"
  by (induction xs) auto

lemma distinct_firstSeen: "distinct (firstSeen xs)"
  by (induction xs) (auto simp: set_firstSeen)

lemma alist_by_keys:
  "distinct (map fst m) \<Longrightarrow> m = map (\<lambda>k. (k, map_get m k)) (map fst m)"
proof (induction m)
  case Nil
  show ?case by simp
next
  case (Cons p m)
  obtain k0 v0 where p: "p = (k0, v0)" by (cases p)
  from Cons.prems p have nin: "k0 \<notin> fst ` set m" and d: "distinct (map fst m)" by auto
  have "map (\<lambda>k. (k, map_get (p # m) k)) (map fst m) = map (\<lambda>k. (k, map_get m k)) (map fst m)"
    using nin p by (auto simp: map_get_def)
  with Cons.IH [OF d] p show ?case by (simp add: map_get_def)
qed

lemma nameLoop_entries:
  "nameLoop 0 dat [] =
     map (\<lambda>k. (k, membersOf 0 dat k)) (firstSeen (map normalizedName (filter usableName dat)))"
proof -
  have keys: "map fst (nameLoop 0 dat []) = firstSeen (map normalizedName (filter usableName dat))"
    by (simp add: keys_nameLoop)
  then have "distinct (map fst (nameLoop 0 dat []))" by (simp add: distinct_firstSeen)
  from alist_by_keys [OF this] show ?thesis
    unfolding keys by (simp add: map_get_nameLoop map_get_Nil)
qed

lemma grouping_eq: "map_get (nameLoop 0 dat []) k = membersOf 0 dat k"
  by (simp add: map_get_nameLoop map_get_Nil)

section \<open>The duplicate groups\<close>

lemma enumerate_nth: "enumerate 0 xs = map (\<lambda>i. (i, xs ! i)) [0..<length xs]"
  by (rule nth_equalityI) (simp_all add: nth_enumerate_eq)

lemma membersOf_indices:
  "membersOf 0 dat k = map (\<lambda>i. withIndex (i, dat ! i)) (indicesOf dat k)"
  by (simp add: membersOf_def indicesOf_def enumerate_nth filter_map comp_def)

lemma usableName_no_truthy:
  assumes "\<not> list_ex (\<lambda>record. js_truthy (obj_get record nameField)) dat"
  shows "filter usableName dat = []"
  using assms by (auto simp: list_ex_iff usableName_def filter_empty_conv)

lemma findDuplicates_eq:
  "findDuplicates dat =
     map (\<lambda>k. \<lparr> strategy = ''Name'',
                duplicateValue = k,
                records = membersOf 0 dat k,
                originalName = (case membersOf 0 dat k of [] \<Rightarrow> JUndefined
                                | r # _ \<Rightarrow> obj_get r nameField) \<rparr>)
       (filter (\<lambda>k. length (membersOf 0 dat k) > 1)
          (firstSeen (map normalizedName (filter usableName dat))))"
proof (cases "list_ex (\<lambda>record. js_truthy (obj_get record nameField)) dat")
  case True
  then show ?thesis
    by (simp add: findDuplicates_def emitGroups_def nameLoop_entries filter_map comp_def)
next
  case False
  from usableName_no_truthy [OF False] False show ?thesis
    by (simp add: findDuplicates_def)
qed

lemma obj_get_withIndex_Name: "obj_get (withIndex (i, r)) ''Name'' = obj_get r ''Name''"
  by (simp add: withIndex_def obj_get_assign)

lemma obj_get_withIndex_index:
  "obj_get (withIndex (i, r)) ''__original_index'' = JNumber (int i)"
  by (simp add: withIndex_def obj_get_assign)

lemma withIndex_inj: "withIndex (i, r) = withIndex (j, s) \<Longrightarrow> i = j"
proof -
  assume "withIndex (i, r) = withIndex (j, s)"
  then have "obj_get (withIndex (i, r)) ''__original_index''
      = obj_get (withIndex (j, s)) ''__original_index''" by simp
  then show "i = j" by (simp add: obj_get_withIndex_index)
qed

lemma in_indicesOf:
  "i \<in> set (indicesOf dat k) \<longleftrightarrow>
     i < length dat \<and> usableName (dat ! i) \<and> normalizedName (dat ! i) = k"
  by (auto simp: indicesOf_def)

lemma member_iff_usable:
  "withIndex (i, dat ! i) \<in> set (membersOf 0 dat k) \<longleftrightarrow> i \<in> set (indicesOf dat k)"
proof
  assume "withIndex (i, dat ! i) \<in> set (membersOf 0 dat k)"
  then obtain j where j: "j \<in> set (indicesOf dat k)" "withIndex (i, dat ! i) = withIndex (j, dat ! j)"
    by (auto simp: membersOf_indices)
  from withIndex_inj [OF j(2)] j(1) show "i \<in> set (indicesOf dat k)" by simp
next
  assume "i \<in> set (indicesOf dat k)"
  then show "withIndex (i, dat ! i) \<in> set (membersOf 0 dat k)"
    by (auto simp: membersOf_indices)
qed

lemma member_of_group:
  assumes "m \<in> set (membersOf 0 dat k)"
  shows "\<exists>i < length dat. m = withIndex (i, dat ! i) \<and> usableName (dat ! i)
            \<and> normalizedName (dat ! i) = k"
  using assms by (auto simp: membersOf_indices in_indicesOf)

lemma findDuplicates_group:
  assumes "g \<in> set (findDuplicates dat)"
  shows "records g = membersOf 0 dat (duplicateValue g)"
    and "1 < length (membersOf 0 dat (duplicateValue g))"
    and "originalName g = obj_get (hd (records g)) ''Name''"
    and "strategy g = ''Name''"
proof -
  from assms obtain k where k: "1 < length (membersOf 0 dat k)"
    and g: "g = \<lparr> strategy = ''Name'', duplicateValue = k, records = membersOf 0 dat k,
                originalName = (case membersOf 0 dat k of [] \<Rightarrow> JUndefined
                                | r # _ \<Rightarrow> obj_get r nameField) \<rparr>"
    unfolding findDuplicates_eq by auto
  from g show "records g = membersOf 0 dat (duplicateValue g)" "strategy g = ''Name''"
    by simp_all
  from g k show "1 < length (membersOf 0 dat (duplicateValue g))" by simp
  from k obtain r rs where "membersOf 0 dat k = r # rs" by (cases "membersOf 0 dat k") auto
  with g show "originalName g = obj_get (hd (records g)) ''Name''"
    by (simp add: nameField_def)
qed

lemma findDuplicates_keys:
  "map duplicateValue (findDuplicates dat) =
     filter (\<lambda>k. 2 \<le> length (indicesOf dat k))
       (firstSeen (map normalizedName (filter usableName dat)))"
proof -
  have "(1 < length (membersOf 0 dat k)) = (2 \<le> length (indicesOf dat k))" for k
    by (auto simp: membersOf_indices)
  then show ?thesis
    unfolding findDuplicates_eq by (simp add: comp_def)
qed

lemma hd_membersOf:
  assumes "indicesOf dat k \<noteq> []"
  shows "hd (membersOf 0 dat k) = withIndex (hd (indicesOf dat k), dat ! hd (indicesOf dat k))"
  using assms by (simp add: membersOf_indices hd_map)

lemma positionsFrom_Cons:
  "positionsFrom n (r # rest) k =
     (if usableName r \<and> normalizedName r = k then [n] else []) @ positionsFrom (Suc n) rest k"
  by (simp add: positionsFrom_def)

lemma positionsFrom_ge: "i \<in> set (positionsFrom n dat k) \<Longrightarrow> n \<le> i"
  by (auto simp: positionsFrom_def in_set_enumerate_eq)

lemma positionsFrom_nonempty:
  "k \<in> set (map normalizedName (filter usableName dat)) \<Longrightarrow> positionsFrom n dat k \<noteq> []"
proof (induction dat arbitrary: n)
  case Nil
  then show ?case by simp
next
  case (Cons r rest)
  then show ?case by (auto simp: positionsFrom_Cons split: if_splits)
qed

lemma positionsFrom_indicesOf: "positionsFrom 0 dat k = indicesOf dat k"
  by (simp add: positionsFrom_def indicesOf_def enumerate_nth filter_map comp_def)

lemma firstSeen_by_position:
  "sorted_wrt (\<lambda>a b. hd (positionsFrom n dat a) < hd (positionsFrom n dat b))
     (firstSeen (map normalizedName (filter usableName dat)))"
proof (induction dat arbitrary: n)
  case Nil
  show ?case by simp
next
  case (Cons r rest)
  let ?ks = "firstSeen (map normalizedName (filter usableName rest))"
  note IH = Cons.IH [of "Suc n"]
  show ?case
  proof (cases "usableName r")
    case False
    with IH show ?thesis by (simp add: positionsFrom_Cons)
  next
    case True
    let ?k0 = "normalizedName r"
    have tail: "hd (positionsFrom n (r # rest) x) = hd (positionsFrom (Suc n) rest x)"
      if "x \<noteq> ?k0" for x
      using that by (simp add: positionsFrom_Cons)
    have first: "hd (positionsFrom n (r # rest) ?k0) < hd (positionsFrom n (r # rest) x)"
      if x: "x \<in> set ?ks" "x \<noteq> ?k0" for x
    proof -
      from x(1) have "positionsFrom (Suc n) rest x \<noteq> []"
        by (simp add: positionsFrom_nonempty set_firstSeen)
      then have "hd (positionsFrom (Suc n) rest x) \<in> set (positionsFrom (Suc n) rest x)"
        by simp
      then have "Suc n \<le> hd (positionsFrom (Suc n) rest x)"
        by (rule positionsFrom_ge)
      moreover have "hd (positionsFrom n (r # rest) ?k0) = n"
        using True by (simp add: positionsFrom_Cons)
      ultimately show ?thesis using tail [OF x(2)] by simp
    qed
    from IH have "sorted_wrt (\<lambda>a b. hd (positionsFrom (Suc n) rest a)
        < hd (positionsFrom (Suc n) rest b)) (filter (\<lambda>y. y \<noteq> ?k0) ?ks)"
      by (rule sorted_wrt_filter)
    then have "sorted_wrt (\<lambda>a b. hd (positionsFrom n (r # rest) a)
        < hd (positionsFrom n (r # rest) b)) (filter (\<lambda>y. y \<noteq> ?k0) ?ks)"
      by (rule sorted_wrt_mono_rel [rotated]) (simp add: tail)
    with first True show ?thesis by simp
  qed
qed

text \<open>
  C2.  Every group that \<open>findDuplicates\<close> returns has at least two members.  The keys of
  the groups are, in this order, the keys that at least two records have, taken in the order
  in which the keys are first seen in the list of records; so the groups are ordered by the
  position of their first record.  The members of a group are the records with the group's
  key in the order of the list, each with its position added.  The representative value of a
  group is the value under Name of its first member, which is the value, as it is written,
  of the first record with that key.
\<close>

theorem duplicate_groups_shape:
  "(\<forall>g \<in> set (findDuplicates dat). 2 \<le> length (records g))
   \<and> map duplicateValue (findDuplicates dat) =
       filter (\<lambda>k. 2 \<le> length (indicesOf dat k))
         (firstSeen (map normalizedName (filter usableName dat)))
   \<and> sorted_wrt (<) (map (\<lambda>g. hd (indicesOf dat (duplicateValue g))) (findDuplicates dat))
   \<and> (\<forall>g \<in> set (findDuplicates dat).
         records g = map (\<lambda>i. withIndex (i, dat ! i)) (indicesOf dat (duplicateValue g)))
   \<and> (\<forall>g \<in> set (findDuplicates dat).
         originalName g = obj_get (hd (records g)) ''Name''
         \<and> originalName g = obj_get (dat ! hd (indicesOf dat (duplicateValue g))) ''Name'')"
proof -
  have size: "\<forall>g \<in> set (findDuplicates dat). 2 \<le> length (records g)"
    using findDuplicates_group(1,2) by fastforce
  have members: "\<forall>g \<in> set (findDuplicates dat).
      records g = map (\<lambda>i. withIndex (i, dat ! i)) (indicesOf dat (duplicateValue g))"
    using findDuplicates_group(1) by (simp add: membersOf_indices)
  have order: "sorted_wrt (<)
      (map (\<lambda>g. hd (indicesOf dat (duplicateValue g))) (findDuplicates dat))"
  proof -
    have "sorted_wrt (\<lambda>a b. hd (indicesOf dat a) < hd (indicesOf dat b))
        (map duplicateValue (findDuplicates dat))"
      unfolding findDuplicates_keys
      using firstSeen_by_position [of 0 dat]
      by (simp add: positionsFrom_indicesOf sorted_wrt_filter)
    then show ?thesis by (simp add: sorted_wrt_map)
  qed
  have name: "originalName g = obj_get (hd (records g)) ''Name''
      \<and> originalName g = obj_get (dat ! hd (indicesOf dat (duplicateValue g))) ''Name''"
    if g: "g \<in> set (findDuplicates dat)" for g
  proof -
    from findDuplicates_group(2) [OF g] have ne: "indicesOf dat (duplicateValue g) \<noteq> []"
      by (auto simp: membersOf_indices)
    from findDuplicates_group(3) [OF g] findDuplicates_group(1) [OF g] hd_membersOf [OF ne]
    show ?thesis by (simp add: obj_get_withIndex_Name)
  qed
  from size members order name findDuplicates_keys [of dat] show ?thesis by blast
qed

text \<open>
  Ten records: Alice and alice (with spaces) form the first group, Bob, BOB and bob the
  second, and the representatives are Alice and Bob.
\<close>

theorem duplicate_groups_shape_witness:
  "map duplicateValue (findDuplicates exampleNames) = [''alice'', ''bob'']
   \<and> list_all (\<lambda>g. 2 \<le> length (records g)) (findDuplicates exampleNames)
   \<and> map (\<lambda>g. hd (indicesOf exampleNames (duplicateValue g))) (findDuplicates exampleNames)
       = [0, 1]
   \<and> map records (findDuplicates exampleNames) =
       [[withIndex (0, exampleNames ! 0), withIndex (3, exampleNames ! 3)],
        [withIndex (1, exampleNames ! 1), withIndex (5, exampleNames ! 5),
         withIndex (9, exampleNames ! 9)]]
   \<and> map originalName (findDuplicates exampleNames) = [JString ''Alice'', JString ''Bob'']
   \<and> list_all (\<lambda>g. originalName g = obj_get (hd (records g)) ''Name'')
        (findDuplicates exampleNames)"
proof -
  have k: "map duplicateValue (findDuplicates exampleNames) = [''alice'', ''bob'']"
    by code_simp
  have i: "map (\<lambda>g. hd (indicesOf exampleNames (duplicateValue g)))
      (findDuplicates exampleNames) = [0, 1]"
    by code_simp
  have r: "map records (findDuplicates exampleNames) =
       [[withIndex (0, exampleNames ! 0), withIndex (3, exampleNames ! 3)],
        [withIndex (1, exampleNames ! 1), withIndex (5, exampleNames ! 5),
         withIndex (9, exampleNames ! 9)]]"
    by code_simp
  have n: "map originalName (findDuplicates exampleNames) = [JString ''Alice'', JString ''Bob'']"
    by code_simp
  note shape = duplicate_groups_shape [of exampleNames]
  from shape have "\<forall>g \<in> set (findDuplicates exampleNames). 2 \<le> length (records g)"
    by (rule conjunct1)
  then have a: "list_all (\<lambda>g. 2 \<le> length (records g)) (findDuplicates exampleNames)"
    by (simp only: list_all_iff)
  from shape have "\<forall>g \<in> set (findDuplicates exampleNames).
      originalName g = obj_get (hd (records g)) ''Name''"
    by blast
  then have d: "list_all (\<lambda>g. originalName g = obj_get (hd (records g)) ''Name'')
      (findDuplicates exampleNames)"
    by (simp only: list_all_iff)
  from k a i r n d show ?thesis by (intro conjI)
qed

section \<open>Which records are grouped\<close>

lemma truthy_usable:
  "js_truthy v \<Longrightarrow> (trim (js_String v) \<noteq> []) = (\<not> blankName v)"
  by (cases v) (simp_all add: blankName_def trim_js_String_number trim_js_String_bool
      del: js_String.simps(3,4))

lemma usableName_iff:
  "usableName r \<longleftrightarrow> js_truthy (obj_get r ''Name'') \<and> \<not> blankName (obj_get r ''Name'')"
  using truthy_usable [of "obj_get r ''Name''"] by (auto simp: usableName_def nameField_def)

lemma blankName_not_usable: "blankName (obj_get r ''Name'') \<Longrightarrow> \<not> usableName r"
  by (simp add: usableName_iff)

lemma normalizedName_eq:
  "normalizedName r = toLowerCase (trim (js_String (obj_get r ''Name'')))"
  by (simp add: normalizedName_def nameField_def trim_toLowerCase)

text \<open>
  C1, as amended.  A record whose value under Name is truthy (so it is neither empty nor the
  number 0 nor \<open>false\<close>) and not white space only is put into the map under exactly one key:
  the string of that value, trimmed and then lowercased.  A record whose value under Name is
  empty or white space only is under no key of the map and in no group.  Every member of
  every returned group has a value under Name that is neither empty nor white space only,
  and the group's key is that value's string, trimmed and then lowercased.
\<close>

theorem grouping_key_and_exclusion:
  "(\<forall>i < length dat.
      js_truthy (obj_get (dat ! i) ''Name'') \<and> \<not> blankName (obj_get (dat ! i) ''Name'') \<longrightarrow>
        withIndex (i, dat ! i) \<in> set (map_get (nameLoop 0 dat [])
            (toLowerCase (trim (js_String (obj_get (dat ! i) ''Name'')))))
        \<and> (\<forall>k. withIndex (i, dat ! i) \<in> set (map_get (nameLoop 0 dat []) k) \<longrightarrow>
               k = toLowerCase (trim (js_String (obj_get (dat ! i) ''Name'')))))
   \<and> (\<forall>i < length dat.
        blankName (obj_get (dat ! i) ''Name'') \<longrightarrow>
          (\<forall>k. withIndex (i, dat ! i) \<notin> set (map_get (nameLoop 0 dat []) k))
          \<and> (\<forall>g \<in> set (findDuplicates dat). withIndex (i, dat ! i) \<notin> set (records g)))
   \<and> (\<forall>g \<in> set (findDuplicates dat). \<forall>m \<in> set (records g).
        \<not> blankName (obj_get m ''Name'')
        \<and> duplicateValue g = toLowerCase (trim (js_String (obj_get m ''Name''))))"
proof -
  have a: "withIndex (i, dat ! i) \<in> set (map_get (nameLoop 0 dat [])
            (toLowerCase (trim (js_String (obj_get (dat ! i) ''Name'')))))
        \<and> (\<forall>k. withIndex (i, dat ! i) \<in> set (map_get (nameLoop 0 dat []) k) \<longrightarrow>
               k = toLowerCase (trim (js_String (obj_get (dat ! i) ''Name''))))"
    if "i < length dat"
      and "js_truthy (obj_get (dat ! i) ''Name'') \<and> \<not> blankName (obj_get (dat ! i) ''Name'')"
    for i
    using that
    by (simp add: grouping_eq member_iff_usable in_indicesOf usableName_iff normalizedName_eq)
  have b: "(\<forall>k. withIndex (i, dat ! i) \<notin> set (map_get (nameLoop 0 dat []) k))
          \<and> (\<forall>g \<in> set (findDuplicates dat). withIndex (i, dat ! i) \<notin> set (records g))"
    if "i < length dat" and "blankName (obj_get (dat ! i) ''Name'')" for i
  proof -
    from that(2) have "\<not> usableName (dat ! i)" by (rule blankName_not_usable)
    then have "withIndex (i, dat ! i) \<notin> set (membersOf 0 dat k)" for k
      by (simp add: member_iff_usable in_indicesOf)
    then show ?thesis
      by (simp add: grouping_eq findDuplicates_group(1))
  qed
  have c: "\<not> blankName (obj_get m ''Name'')
        \<and> duplicateValue g = toLowerCase (trim (js_String (obj_get m ''Name'')))"
    if g: "g \<in> set (findDuplicates dat)" and m: "m \<in> set (records g)" for g m
  proof -
    from m findDuplicates_group(1) [OF g]
    have "m \<in> set (membersOf 0 dat (duplicateValue g))" by simp
    from member_of_group [OF this] show ?thesis
      by (auto simp: obj_get_withIndex_Name usableName_iff normalizedName_eq)
  qed
  from a b c show ?thesis by blast
qed

text \<open>
  In the ten records, the record at position 3 is under the key alice, and the record at
  position 6, whose name is two spaces, is in no group.
\<close>

theorem grouping_key_and_exclusion_witness:
  "js_truthy (obj_get (exampleNames ! 3) ''Name'')
   \<and> \<not> blankName (obj_get (exampleNames ! 3) ''Name'')
   \<and> toLowerCase (trim (js_String (obj_get (exampleNames ! 3) ''Name''))) = ''alice''
   \<and> withIndex (3, exampleNames ! 3) \<in> set (map_get (nameLoop 0 exampleNames []) ''alice'')
   \<and> blankName (obj_get (exampleNames ! 6) ''Name'')
   \<and> withIndex (6, exampleNames ! 6) \<notin> set (map_get (nameLoop 0 exampleNames []) [])
   \<and> list_all (\<lambda>g. withIndex (6, exampleNames ! 6) \<notin> set (records g))
        (findDuplicates exampleNames)
   \<and> list_all (\<lambda>g. list_all (\<lambda>m. \<not> blankName (obj_get m ''Name'')) (records g))
        (findDuplicates exampleNames)"
proof -
  have l: "3 < length exampleNames" "6 < length exampleNames"
    by (simp_all add: exampleNames_def)
  have t: "js_truthy (obj_get (exampleNames ! 3) ''Name'')"
    "\<not> blankName (obj_get (exampleNames ! 3) ''Name'')"
    "toLowerCase (trim (js_String (obj_get (exampleNames ! 3) ''Name''))) = ''alice''"
    "blankName (obj_get (exampleNames ! 6) ''Name'')"
    by code_simp+
  note inst = grouping_key_and_exclusion [of exampleNames]
  from inst [THEN conjunct1, rule_format, of 3] l(1) t(1,2)
  have "withIndex (3, exampleNames ! 3) \<in> set (map_get (nameLoop 0 exampleNames [])
      (toLowerCase (trim (js_String (obj_get (exampleNames ! 3) ''Name'')))))"
    by blast
  then have a: "withIndex (3, exampleNames ! 3)
      \<in> set (map_get (nameLoop 0 exampleNames []) ''alice'')"
    unfolding t(3) .
  from inst [THEN conjunct2, THEN conjunct1, rule_format, of 6] l(2) t(4)
  have b: "withIndex (6, exampleNames ! 6) \<notin> set (map_get (nameLoop 0 exampleNames []) [])"
    and "\<forall>g \<in> set (findDuplicates exampleNames).
      withIndex (6, exampleNames ! 6) \<notin> set (records g)"
    by blast+
  then have c: "list_all (\<lambda>g. withIndex (6, exampleNames ! 6) \<notin> set (records g))
        (findDuplicates exampleNames)"
    by (simp only: list_all_iff)
  from inst have "\<forall>g \<in> set (findDuplicates exampleNames). \<forall>m \<in> set (records g).
      \<not> blankName (obj_get m ''Name'')"
    by blast
  then have d: "list_all (\<lambda>g. list_all (\<lambda>m. \<not> blankName (obj_get m ''Name'')) (records g))
        (findDuplicates exampleNames)"
    by (simp only: list_all_iff)
  from t(1,2,3) a t(4) b c d show ?thesis by (intro conjI)
qed

text \<open>
  C1, as stated, fails for the number 0 as a name: the value is not empty and its string
  \<open>0\<close> is not white space only, and yet the two records with this name are under no key
  of the map, and no group is returned for them.
\<close>

theorem blank_zero_counterexample:
  "obj_get (zeroNames ! 0) ''Name'' = JNumber 0
   \<and> obj_get (zeroNames ! 1) ''Name'' = JNumber 0
   \<and> \<not> blankName (JNumber 0)
   \<and> toLowerCase (trim (js_String (JNumber 0))) = ''0''
   \<and> map_get (nameLoop 0 zeroNames []) ''0'' = []
   \<and> nameLoop 0 zeroNames [] = [(''ann'', [withIndex (2, zeroNames ! 2)])]
   \<and> findDuplicates zeroNames = []"
  by code_simp

text \<open>
  C10.  A record whose value under Name is the number 0 or the boolean \<open>false\<close> is under no
  key of the map and in no returned group, and the flag \<open>hasNameField\<close> of a run is what it
  would be without such records, although the strings of these values, \<open>0\<close> and
  \<open>false\<close>, are neither empty nor white space only.
\<close>

theorem falsy_scalar_excluded:
  "(\<forall>i < length dat.
      obj_get (dat ! i) ''Name'' = JNumber 0 \<or> obj_get (dat ! i) ''Name'' = JBool False \<longrightarrow>
        (\<forall>k. withIndex (i, dat ! i) \<notin> set (map_get (nameLoop 0 dat []) k))
        \<and> (\<forall>g \<in> set (findDuplicates dat). withIndex (i, dat ! i) \<notin> set (records g)))
   \<and> (\<forall>files out. processFiles files = Some out \<longrightarrow>
        hasNameField (results out) =
          list_ex (\<lambda>record. js_truthy (obj_get record ''Name''))
            (filter (\<lambda>record. obj_get record ''Name'' \<noteq> JNumber 0
                              \<and> obj_get record ''Name'' \<noteq> JBool False) (combinedData out)))
   \<and> trim (js_String (JNumber 0)) = ''0''
   \<and> trim (js_String (JBool False)) = ''false''"
proof -
  have a: "(\<forall>k. withIndex (i, dat ! i) \<notin> set (map_get (nameLoop 0 dat []) k))
        \<and> (\<forall>g \<in> set (findDuplicates dat). withIndex (i, dat ! i) \<notin> set (records g))"
    if "i < length dat"
      and "obj_get (dat ! i) ''Name'' = JNumber 0 \<or> obj_get (dat ! i) ''Name'' = JBool False"
    for i
  proof -
    from that(2) have "\<not> js_truthy (obj_get (dat ! i) ''Name'')" by auto
    then have "\<not> usableName (dat ! i)" by (simp add: usableName_iff)
    then have "withIndex (i, dat ! i) \<notin> set (membersOf 0 dat k)" for k
      by (simp add: member_iff_usable in_indicesOf)
    then show ?thesis
      by (simp add: grouping_eq findDuplicates_group(1))
  qed
  have b: "hasNameField (results out) =
          list_ex (\<lambda>record. js_truthy (obj_get record ''Name''))
            (filter (\<lambda>record. obj_get record ''Name'' \<noteq> JNumber 0
                              \<and> obj_get record ''Name'' \<noteq> JBool False) (combinedData out))"
    if "processFiles files = Some out" for files out
    unfolding processFiles_Some(5) [OF that]
    by (auto simp: list_ex_iff)
  have c: "trim (js_String (JNumber 0)) = ''0''" "trim (js_String (JBool False)) = ''false''"
    by code_simp+
  from a b c show ?thesis by blast
qed

text \<open>
  In the ten records, the records at positions 4 and 8 have the name 0 and are in no group;
  a file whose two rows have the name 0 gives a run with \<open>hasNameField = false\<close>.
\<close>

theorem falsy_scalar_excluded_witness:
  "obj_get (exampleNames ! 4) ''Name'' = JNumber 0
   \<and> obj_get (exampleNames ! 8) ''Name'' = JNumber 0
   \<and> withIndex (4, exampleNames ! 4) \<notin> set (map_get (nameLoop 0 exampleNames []) ''0'')
   \<and> list_all (\<lambda>g. withIndex (4, exampleNames ! 4) \<notin> set (records g))
        (findDuplicates exampleNames)
   \<and> list_all (\<lambda>g. withIndex (8, exampleNames ! 8) \<notin> set (records g))
        (findDuplicates exampleNames)
   \<and> processFiles [\<lparr> file_name = ''z.csv'', data = zeroNames, meta_fields = Some [''Name''] \<rparr>]
       \<noteq> None
   \<and> \<not> hasNameField (results (the (processFiles
         [\<lparr> file_name = ''z.csv'', data = take 2 zeroNames, meta_fields = Some [''Name''] \<rparr>])))"
proof -
  let ?files = "[\<lparr> file_name = ''z.csv'', data = take 2 zeroNames, meta_fields = Some [''Name''] \<rparr>]"
  have l: "4 < length exampleNames" "8 < length exampleNames"
    by (simp_all add: exampleNames_def)
  have v: "obj_get (exampleNames ! 4) ''Name'' = JNumber 0"
    "obj_get (exampleNames ! 8) ''Name'' = JNumber 0"
    by code_simp+
  have p: "processFiles [\<lparr> file_name = ''z.csv'', data = zeroNames, meta_fields = Some [''Name''] \<rparr>]
       \<noteq> None"
    by code_simp
  have "processFiles ?files \<noteq> None" by code_simp
  then have s: "processFiles ?files = Some (the (processFiles ?files))" by simp
  have f: "filter (\<lambda>record. obj_get record ''Name'' \<noteq> JNumber 0
                              \<and> obj_get record ''Name'' \<noteq> JBool False)
             (combinedData (the (processFiles ?files))) = []"
    by code_simp
  note inst = falsy_scalar_excluded [of exampleNames]
  from inst s have "hasNameField (results (the (processFiles ?files))) =
          list_ex (\<lambda>record. js_truthy (obj_get record ''Name''))
            (filter (\<lambda>record. obj_get record ''Name'' \<noteq> JNumber 0
                              \<and> obj_get record ''Name'' \<noteq> JBool False)
               (combinedData (the (processFiles ?files))))"
    by blast
  then have h: "\<not> hasNameField (results (the (processFiles ?files)))"
    unfolding f by simp
  from inst [THEN conjunct1, rule_format, of 4] l(1) v(1)
  have a: "withIndex (4, exampleNames ! 4) \<notin> set (map_get (nameLoop 0 exampleNames []) ''0'')"
    and "\<forall>g \<in> set (findDuplicates exampleNames).
      withIndex (4, exampleNames ! 4) \<notin> set (records g)"
    by blast+
  then have b: "list_all (\<lambda>g. withIndex (4, exampleNames ! 4) \<notin> set (records g))
        (findDuplicates exampleNames)"
    by (simp only: list_all_iff)
  from inst [THEN conjunct1, rule_format, of 8] l(2) v(2)
  have "\<forall>g \<in> set (findDuplicates exampleNames).
      withIndex (8, exampleNames ! 8) \<notin> set (records g)"
    by blast
  then have c: "list_all (\<lambda>g. withIndex (8, exampleNames ! 8) \<notin> set (records g))
        (findDuplicates exampleNames)"
    by (simp only: list_all_iff)
  from v a b c p h show ?thesis by (intro conjI)
qed

end
